theory Spec2Isabelle
  imports Complex_Main
begin

section \<open>Data model\<close>

text \<open>
  The vertical list lines of the outliner (\<^verbatim>\<open>src/features/LinesFeature.ts\<close>).
  Document offsets, line numbers and columns are JavaScript integers and are modelled as
  \<^typ>\<open>int\<close>; pixel coordinates are JavaScript numbers and are modelled as \<^typ>\<open>real\<close>
  (the code only compares, subtracts and scales them, see \<open>getIndentSize\<close>).
\<close>

record pos =
  line :: int
  ch :: int

record 'a range =
  range_from :: 'a
  range_to :: 'a

text \<open>
  Modelled from the spec: the class \<^verbatim>\<open>List\<close> of \<^verbatim>\<open>src/root.ts\<close> is not among the
  sources. An item carries what the feature reads from it: its content start, the literal
  indent of its first line, the fold flag (\<open>isFolded()\<close>), the emptiness flag
  (\<open>isEmpty()\<close>: its own text is whitespace-only) and its ordered children. The parent
  back-reference is a navigation handle only; where the code follows it
  (\<open>getParent()\<close>, \<open>getNextSiblingOf\<close>) the model carries the position of the item in
  the tree: the items that follow it under its parent, and the same for every ancestor.
\<close>

datatype list_item = ListItem
  (getFirstLineContentStart: pos)
  (getFirstLineIndent: string)
  (isFolded: bool)
  (isEmpty: bool)
  (getChildren: "list_item list")

text \<open>
  Modelled from the spec: the class \<^verbatim>\<open>Root\<close> returned by the parser, with its line range
  (\<open>getRange()\<close>, a pair of positions) and its top-level items.
\<close>

datatype root = Root
  (root_getRange: "pos \<times> pos")
  (root_getChildren: "list_item list")

text \<open>A line block of the editor view: only \<open>top\<close> and \<open>bottom\<close> are read.\<close>

record block =
  top_blk :: real
  bottom_blk :: real

text \<open>
  Modelled from the spec: \<^verbatim>\<open>MyEditor\<close> (the coordinate bridge), with the two conversions
  and the optional zoom range.
\<close>

record MyEditor =
  offsetToPos :: "int \<Rightarrow> pos"
  posToOffset :: "pos \<Rightarrow> int"
  getZoomRange :: "pos range option"

text \<open>
  The collaborators of the view plugin: the settings (\<open>listLines\<close>), the theme test, the
  tab size, the editor view (\<open>viewportLineBlocks\<close>, \<open>visibleRanges\<close>, \<open>viewport\<close>,
  \<open>lineBlockAt\<close>), the editor (unset until \<open>waitForEditor\<close> has found it) and the parser.
\<close>

record env =
  listLines :: bool
  isDefaultThemeEnabled :: bool
  tabSize :: nat
  viewportLineBlocks :: "block list"
  visibleRanges :: "int range list"
  viewport :: "int range"
  lineBlockAt :: "int \<Rightarrow> block"
  editor :: "MyEditor option"
  parseRange :: "MyEditor \<Rightarrow> int \<Rightarrow> int \<Rightarrow> root list"

text \<open>
  The height of a line is the string \<^verbatim>\<open>calc(${height}px - 1em)\<close> or
  \<^verbatim>\<open>calc(${height}px - 1.8em)\<close>; \<open>Calc height hasNextSibling\<close> keeps the two holes of
  the template. \<open>ZeroPx\<close> is the string \<^verbatim>\<open>0px\<close> of a hidden element.
\<close>

datatype css_height = Calc real bool | ZeroPx

record LineData =
  top_px :: real
  left :: real
  height :: css_height
  list_of :: list_item

datatype display = DisplayBlock | DisplayNone

record element =
  style_top :: real
  style_left :: real
  style_height :: css_height
  style_display :: display

record plugin_state =
  lastLine :: int
  lines :: "LineData list"
  lineElements :: "element list"

datatype error = TypeError

section \<open>The geometry engine\<close>

text \<open>
  \<open>getNextSibling\<close>: the loop climbs from the item to the root and returns the first
  following sibling it meets. The argument is the position of the item: the head is the
  list of items after it under its parent, then the same for the parent, and so on; each
  round of the loop is one element of that list.
\<close>

fun getNextSibling :: "list_item list list \<Rightarrow> list_item option" where
  "getNextSibling [] = None"
| "getNextSibling ([] # up) = getNextSibling up"
| "getNextSibling ((nextSibling # _) # _) = Some nextSibling"

text \<open>\<open>p.getNextSiblingOf(list)\<close>, from the items that follow \<open>list\<close> under \<open>p\<close>.\<close>

fun getNextSiblingOf :: "list_item list \<Rightarrow> list_item option" where
  "getNextSiblingOf [] = None"
| "getNextSiblingOf (nextSibling # _) = Some nextSibling"

text \<open>\<open>getIndentSize\<close>: the loop over the characters of the indent, then the scaling.\<close>

definition spaceSize :: real where
  "spaceSize = 4.5"

fun indentSpaces :: "nat \<Rightarrow> string \<Rightarrow> nat \<Rightarrow> nat" where
  "indentSpaces ts [] spaces = spaces"
| "indentSpaces ts (c # cs) spaces =
     (if c = CHR 0x09 then indentSpaces ts cs (spaces + ts)
      else indentSpaces ts cs (spaces + 1))"

definition getIndentSize :: "env \<Rightarrow> list_item \<Rightarrow> real" where
  "getIndentSize e l =
     real (indentSpaces (tabSize e) (getFirstLineIndent l) 0) * spaceSize"

text \<open>The two document bounds of an item (lines 147 to 157 of the source).\<close>

definition fromOffset :: "MyEditor \<Rightarrow> list_item \<Rightarrow> int" where
  "fromOffset ed l =
     posToOffset ed \<lparr>line = line (getFirstLineContentStart l),
                     ch = int (length (getFirstLineIndent l))\<rparr>"

definition tillOffset :: "MyEditor \<Rightarrow> int \<Rightarrow> list_item list list \<Rightarrow> int" where
  "tillOffset ed lastLn position =
     posToOffset ed
       \<lparr>line = (case getNextSibling position of
                  Some nextSibling \<Rightarrow> line (getFirstLineContentStart nextSibling) - 1
                | None \<Rightarrow> lastLn),
        ch = 0\<rparr>"

text \<open>
  The visible offsets after the zoom clipping (lines 159 to 169). Reading
  \<open>visibleRanges[0]\<close> of an empty array is a \<open>TypeError\<close>.
\<close>

definition visibleBounds :: "env \<Rightarrow> MyEditor \<Rightarrow> error + (int \<times> int)" where
  "visibleBounds e ed =
     (case visibleRanges e of
        [] \<Rightarrow> Inl TypeError
      | r # rs \<Rightarrow>
          (let visibleFrom = range_from r;
               visibleTo = range_to (last (r # rs))
           in case getZoomRange ed of
                None \<Rightarrow> Inr (visibleFrom, visibleTo)
              | Some zoomRange \<Rightarrow>
                  Inr (max visibleFrom (posToOffset ed (range_from zoomRange)),
                       min visibleTo (posToOffset ed (range_to zoomRange)))))"

text \<open>
  The part of \<open>recursive\<close> after the loop over the children (lines 147 to 198): the line
  of one item, if it gets one. \<open>rights\<close> are the items after \<open>l\<close> under its parent and
  \<open>ups\<close> the same for its ancestors.
\<close>

definition connector ::
  "env \<Rightarrow> MyEditor \<Rightarrow> int \<Rightarrow> list_item list \<Rightarrow> list_item list list \<Rightarrow> list_item
     \<Rightarrow> error + LineData option" where
  "connector e ed lastLn rights ups l =
     (case visibleBounds e ed of
        Inl err \<Rightarrow> Inl err
      | Inr (visibleFrom, visibleTo) \<Rightarrow>
          (let fromOff = fromOffset ed l;
               tillOff = tillOffset ed lastLn (rights # ups)
           in if fromOff > visibleTo \<or> tillOff < visibleFrom then Inr None
              else
                (let top = (if visibleFrom > 0 \<and> fromOff \<le> visibleFrom then - 20
                            else top_blk (lineBlockAt e fromOff));
                     bottom = (if tillOff > visibleTo
                               then bottom_blk (lineBlockAt e (visibleTo - 1))
                               else bottom_blk (lineBlockAt e tillOff));
                     h = bottom - top
                 in if h > 0 \<and> \<not> isFolded l then
                      (let hasNextSibling =
                             (case getNextSiblingOf rights of
                                None \<Rightarrow> False
                              | Some nextSibling \<Rightarrow>
                                  posToOffset ed (getFirstLineContentStart nextSibling)
                                    \<le> visibleTo)
                       in Inr (Some \<lparr>top_px = top, left = getIndentSize e l,
                                       height = Calc h hasNextSibling, list_of = l\<rparr>))
                    else Inr None)))"

text \<open>
  \<open>recursive\<close>, with \<open>this.lines\<close> passed through. \<open>recursive_children\<close> is the loop of
  lines 141 to 145 over the children of an item at position \<open>position\<close>.
\<close>

fun recursive ::
  "env \<Rightarrow> MyEditor \<Rightarrow> int \<Rightarrow> list_item list \<Rightarrow> list_item list list \<Rightarrow> list_item
     \<Rightarrow> LineData list \<Rightarrow> error + LineData list"
and recursive_children ::
  "env \<Rightarrow> MyEditor \<Rightarrow> int \<Rightarrow> list_item list list \<Rightarrow> list_item list
     \<Rightarrow> LineData list \<Rightarrow> error + LineData list" where
  "recursive e ed lastLn rights ups (ListItem start indent fld emp children) ls =
     (if children = [] then Inr ls
      else
        (case recursive_children e ed lastLn (rights # ups) children ls of
           Inl err \<Rightarrow> Inl err
         | Inr ls' \<Rightarrow>
             (case connector e ed lastLn rights ups
                     (ListItem start indent fld emp children) of
                Inl err \<Rightarrow> Inl err
              | Inr None \<Rightarrow> Inr ls'
              | Inr (Some ld) \<Rightarrow> Inr (ls' @ [ld]))))"
| "recursive_children e ed lastLn position [] ls = Inr ls"
| "recursive_children e ed lastLn position (child # rest) ls =
     (if \<not> isEmpty child then
        (case recursive e ed lastLn rest position child ls of
           Inl err \<Rightarrow> Inl err
         | Inr ls' \<Rightarrow> recursive_children e ed lastLn position rest ls')
      else recursive_children e ed lastLn position rest ls)"

text \<open>
  The loop of \<open>calculate\<close> over the top-level items of one root (lines 107 to 109):
  every child is visited, and an item under the root has no ancestor with siblings.
\<close>

fun calculate_children ::
  "env \<Rightarrow> MyEditor \<Rightarrow> int \<Rightarrow> list_item list \<Rightarrow> LineData list \<Rightarrow> error + LineData list" where
  "calculate_children e ed lastLn [] ls = Inr ls"
| "calculate_children e ed lastLn (c # rest) ls =
     (case recursive e ed lastLn rest [] c ls of
        Inl err \<Rightarrow> Inl err
      | Inr ls' \<Rightarrow> calculate_children e ed lastLn rest ls')"

text \<open>The loop over the parsed roots (lines 104 to 110); each root sets \<open>lastLine\<close>.\<close>

fun calculate_lists ::
  "env \<Rightarrow> MyEditor \<Rightarrow> root list \<Rightarrow> plugin_state \<Rightarrow> error + plugin_state" where
  "calculate_lists e ed [] st = Inr st"
| "calculate_lists e ed (r # rest) st =
     (let st1 = st\<lparr>lastLine := line (snd (root_getRange r))\<rparr>
      in case calculate_children e ed (lastLine st1) (root_getChildren r) (lines st1) of
           Inl err \<Rightarrow> Inl err
         | Inr ls \<Rightarrow> calculate_lists e ed rest (st1\<lparr>lines := ls\<rparr>))"

text \<open>
  \<open>this.lines.sort(...)\<close>: the comparator of line 112, and JavaScript's sort, which is
  stable; it is modelled as the stable insertion sort under that comparator.
\<close>

definition compareLines :: "LineData \<Rightarrow> LineData \<Rightarrow> real" where
  "compareLines a b =
     (if top_px a = top_px b then left a - left b else top_px a - top_px b)"

fun insertLine :: "LineData \<Rightarrow> LineData list \<Rightarrow> LineData list" where
  "insertLine a [] = [a]"
| "insertLine a (b # bs) =
     (if compareLines a b \<le> 0 then a # b # bs else b # insertLine a bs)"

definition sortLines :: "LineData list \<Rightarrow> LineData list" where
  "sortLines ls = foldr insertLine ls []"

text \<open>
  \<open>updateDom\<close>, the two loops over the line elements (lines 282 to 306): an element is
  created when the lines outnumber the elements, the element of a line takes its
  geometry, and every element beyond the lines is hidden. The sizes of the containers
  (lines 271 to 280) are left to the document object model.
\<close>

definition shown :: "LineData \<Rightarrow> element" where
  "shown l =
     \<lparr>style_top = top_px l, style_left = left l, style_height = height l,
      style_display = DisplayBlock\<rparr>"

definition hidden :: element where
  "hidden = \<lparr>style_top = 0, style_left = 0, style_height = ZeroPx,
             style_display = DisplayNone\<rparr>"

fun updateElements :: "LineData list \<Rightarrow> element list \<Rightarrow> element list" where
  "updateElements [] es = map (\<lambda>_. hidden) es"
| "updateElements (l # ls) [] = shown l # updateElements ls []"
| "updateElements (l # ls) (_ # es) = shown l # updateElements ls es"

definition updateDom :: "plugin_state \<Rightarrow> plugin_state" where
  "updateDom st = st\<lparr>lineElements := updateElements (lines st) (lineElements st)\<rparr>"

text \<open>
  \<open>calculate\<close>. The guard is evaluated left to right and the editor is read only behind
  it; an editor that is not attached yet is a \<open>TypeError\<close> there.
\<close>

definition calculate :: "env \<Rightarrow> plugin_state \<Rightarrow> error + plugin_state" where
  "calculate e st =
     (let st0 = st\<lparr>lines := []\<rparr>
      in if listLines e \<and> isDefaultThemeEnabled e
            \<and> length (viewportLineBlocks e) > 0 \<and> length (visibleRanges e) > 0
         then
           (case editor e of
              None \<Rightarrow> Inl TypeError
            | Some ed \<Rightarrow>
                (let fromLine = line (offsetToPos ed (range_from (viewport e)));
                     toLine = line (offsetToPos ed (range_to (viewport e)));
                     lists = parseRange e ed fromLine toLine
                 in case calculate_lists e ed lists st0 of
                      Inl err \<Rightarrow> Inl err
                    | Inr st1 \<Rightarrow>
                        Inr (updateDom (st1\<lparr>lines := sortLines (lines st1)\<rparr>))))
         else Inr (updateDom st0))"

section \<open>The interaction handler\<close>

text \<open>
  Modelled from the spec: \<^verbatim>\<open>MyEditor.fold\<close> and \<^verbatim>\<open>MyEditor.unfold\<close> are not among the
  sources. The fold state of the host editor is the set of the folded lines; folding a
  line puts it into the set and unfolding takes it out.
\<close>

definition fold_line :: "int \<Rightarrow> int set \<Rightarrow> int set" where
  "fold_line l fs = insert l fs"

definition unfold_line :: "int \<Rightarrow> int set \<Rightarrow> int set" where
  "unfold_line l fs = fs - {l}"

text \<open>The first loop of \<open>toggleFolding\<close> (lines 247 to 257).\<close>

fun collectToggle :: "list_item list \<Rightarrow> bool \<Rightarrow> int list \<Rightarrow> bool \<times> int list" where
  "collectToggle [] needToUnfold linesToToggle = (needToUnfold, linesToToggle)"
| "collectToggle (c # cs) needToUnfold linesToToggle =
     (if isEmpty c then collectToggle cs needToUnfold linesToToggle
      else collectToggle cs (if \<not> isFolded c then False else needToUnfold)
             (linesToToggle @ [line (getFirstLineContentStart c)]))"

text \<open>The second loop (lines 261 to 267).\<close>

fun applyToggle :: "bool \<Rightarrow> int list \<Rightarrow> int set \<Rightarrow> int set" where
  "applyToggle needToUnfold [] fs = fs"
| "applyToggle needToUnfold (l # ls) fs =
     applyToggle needToUnfold ls
       (if needToUnfold then unfold_line l fs else fold_line l fs)"

definition toggleFolding :: "LineData \<Rightarrow> int set \<Rightarrow> int set" where
  "toggleFolding ld fs =
     (let l = list_of ld
      in if isEmpty l then fs
         else
           (case collectToggle (getChildren l) True [] of
              (needToUnfold, linesToToggle) \<Rightarrow> applyToggle needToUnfold linesToToggle fs))"

text \<open>
  Modelled from the spec: the tree is rebuilt, not patched, and the parser reads the fold
  flag of an item from the host editor. With the document unchanged, the next parse
  gives the same tree with the flags of the current fold state.
\<close>

fun reparse :: "int set \<Rightarrow> list_item \<Rightarrow> list_item" where
  "reparse fs (ListItem start indent fld emp children) =
     ListItem start indent (line start \<in> fs) emp (map (reparse fs) children)"

section \<open>Notions used by the properties\<close>

text \<open>
  The positions of the items of a forest: every item with the items after it under its
  parent and the same for its ancestors, an item before its descendants.
\<close>

fun item_positions ::
  "list_item list \<Rightarrow> list_item list list \<Rightarrow> list_item
     \<Rightarrow> (list_item list \<times> list_item list list \<times> list_item) list"
and children_positions ::
  "list_item list list \<Rightarrow> list_item list
     \<Rightarrow> (list_item list \<times> list_item list list \<times> list_item) list" where
  "item_positions rights ups (ListItem start indent fld emp children) =
     (rights, ups, ListItem start indent fld emp children)
       # children_positions (rights # ups) children"
| "children_positions position [] = []"
| "children_positions position (c # rest) =
     item_positions rest position c @ children_positions position rest"


text \<open>
  A line comes from a forest when it is the line of an item at one of the positions under
  one of the roots, computed with the last line of that root.
\<close>

definition from_forest :: "env \<Rightarrow> MyEditor \<Rightarrow> root list \<Rightarrow> LineData \<Rightarrow> bool" where
  "from_forest e ed roots d =
     (\<exists>rt\<in>set roots. \<exists>(r, u, i)\<in>set (children_positions [] (root_getChildren rt)).
         connector e ed (line (snd (root_getRange rt))) r u i = Inr (Some d))"

text \<open>The forest that a pass of \<open>calculate\<close> parses (lines 100 to 102).\<close>

definition parsed :: "env \<Rightarrow> MyEditor \<Rightarrow> root list" where
  "parsed e ed =
     parseRange e ed (line (offsetToPos ed (range_from (viewport e))))
       (line (offsetToPos ed (range_to (viewport e))))"

text \<open>The order of the rendered lines: by \<open>top\<close>, then by \<open>left\<close>.\<close>

definition lineLe :: "LineData \<Rightarrow> LineData \<Rightarrow> bool" where
  "lineLe a b = (top_px a < top_px b \<or> (top_px a = top_px b \<and> left a \<le> left b))"


text \<open>
  The indent in character units, in the words of the specification: a tab counts as the
  tab width and any other character as one.
\<close>

definition indentUnits :: "nat \<Rightarrow> string \<Rightarrow> nat" where
  "indentUnits ts indent = sum_list (map (\<lambda>c. if c = CHR 0x09 then ts else 1) indent)"

text \<open>The direct children of an item that are not empty, and their lines.\<close>

definition nonEmptyChildren :: "list_item \<Rightarrow> list_item list" where
  "nonEmptyChildren l = filter (\<lambda>c. \<not> isEmpty c) (getChildren l)"

definition lineOf :: "list_item \<Rightarrow> int" where
  "lineOf c = line (getFirstLineContentStart c)"

text \<open>
  Two clicks on the line of an item with the document unchanged: the pass between them
  parses the tree again, so the second click sees the fold state left by the first.
\<close>

definition toggleTwice :: "LineData \<Rightarrow> int set \<Rightarrow> int set" where
  "toggleTwice ld fs =
     (let fs1 = toggleFolding ld fs
      in toggleFolding (ld\<lparr>list_of := reparse fs1 (list_of ld)\<rparr>) fs1)"


section \<open>Example documents\<close>

text \<open>
  A host for a document given by the offsets of its line starts, with line blocks of 20
  pixels: line \<open>n\<close> is the block from \<open>20 n\<close> to \<open>20 n + 20\<close>.
\<close>

fun doc_lineAt :: "int list \<Rightarrow> int \<Rightarrow> int" where
  "doc_lineAt [] off = - 1"
| "doc_lineAt (s # starts) off = (if s \<le> off then 1 + doc_lineAt starts off else - 1)"

definition doc_posToOffset :: "int list \<Rightarrow> pos \<Rightarrow> int" where
  "doc_posToOffset starts p = starts ! nat (line p) + ch p"

definition doc_editor :: "int list \<Rightarrow> pos range option \<Rightarrow> MyEditor" where
  "doc_editor starts zoom =
     \<lparr>offsetToPos = (\<lambda>off. \<lparr>line = doc_lineAt starts off,
                              ch = off - starts ! nat (doc_lineAt starts off)\<rparr>),
      posToOffset = doc_posToOffset starts,
      getZoomRange = zoom\<rparr>"

definition doc_lineBlockAt :: "int list \<Rightarrow> int \<Rightarrow> block" where
  "doc_lineBlockAt starts off =
     \<lparr>top_blk = 20 * real_of_int (doc_lineAt starts off),
      bottom_blk = 20 * real_of_int (doc_lineAt starts off) + 20\<rparr>"

definition st0 :: plugin_state where
  "st0 = \<lparr>lastLine = 0, lines = [], lineElements = []\<rparr>"

text \<open>
  The state after a pass over a document whose root ends on line 3: the lines, and one
  shown element for each of them.
\<close>

definition rendered :: "LineData list \<Rightarrow> plugin_state" where
  "rendered ls = \<lparr>lastLine = 3, lines = ls, lineElements = map shown ls\<rparr>"

text \<open>
  The document \<^verbatim>\<open>["- a", "  - b", "  - c", "- d"]\<close> of the specification: the lines
  start at the offsets 0, 4, 10 and 16, and the document has 19 characters.
\<close>

definition flat_b :: list_item where
  "flat_b = ListItem \<lparr>line = 1, ch = 4\<rparr> ''  '' False False []"

definition flat_c :: list_item where
  "flat_c = ListItem \<lparr>line = 2, ch = 4\<rparr> ''  '' False False []"

definition flat_a :: list_item where
  "flat_a = ListItem \<lparr>line = 0, ch = 2\<rparr> [] False False [flat_b, flat_c]"



text \<open>
  The document \<^verbatim>\<open>["- a", "\t- b", "\t\t- c", "- d"]\<close>, indented with tabs: the lines
  start at the offsets 0, 4, 9 and 15, and the document has 18 characters. Item \<open>a\<close>
  takes its fold flag as a parameter.
\<close>

definition nested_c :: list_item where
  "nested_c = ListItem \<lparr>line = 2, ch = 4\<rparr> [CHR 0x09, CHR 0x09] False False []"

definition nested_b :: list_item where
  "nested_b = ListItem \<lparr>line = 1, ch = 3\<rparr> [CHR 0x09] False False [nested_c]"

definition nested_a :: "bool \<Rightarrow> list_item" where
  "nested_a fld = ListItem \<lparr>line = 0, ch = 2\<rparr> [] fld False [nested_b]"

definition nested_d :: list_item where
  "nested_d = ListItem \<lparr>line = 3, ch = 2\<rparr> [] False False []"

definition nested_env :: "bool \<Rightarrow> (int \<Rightarrow> block) \<Rightarrow> env" where
  "nested_env fld blocks =
     \<lparr>listLines = True, isDefaultThemeEnabled = True, tabSize = 4,
      viewportLineBlocks = [\<lparr>top_blk = 0, bottom_blk = 20\<rparr>],
      visibleRanges = [\<lparr>range_from = 0, range_to = 18\<rparr>],
      viewport = \<lparr>range_from = 0, range_to = 18\<rparr>,
      lineBlockAt = blocks,
      editor = Some (doc_editor [0, 4, 9, 15] None),
      parseRange = (\<lambda>_ _ _. [Root (\<lparr>line = 0, ch = 0\<rparr>, \<lparr>line = 3, ch = 3\<rparr>)
                                  [nested_a fld, nested_d]])\<rparr>"


text \<open>
  An item on line 0 with three children: two with text on the lines 1 and 2, whose fold
  flags are parameters, and an empty one on line 3. The first parameter says whether the
  item itself is empty. \<open>tg_line\<close> is the rendered line that a click resolves to it.
\<close>

definition tg_child :: "int \<Rightarrow> bool \<Rightarrow> bool \<Rightarrow> list_item" where
  "tg_child n fld emp = ListItem \<lparr>line = n, ch = 4\<rparr> ''  '' fld emp []"

definition tg_item :: "bool \<Rightarrow> bool \<Rightarrow> bool \<Rightarrow> list_item" where
  "tg_item emp fb fc =
     ListItem \<lparr>line = 0, ch = 2\<rparr> [] False emp
       [tg_child 1 fb False, tg_child 2 fc False, tg_child 3 False True]"

definition tg_line :: "bool \<Rightarrow> bool \<Rightarrow> bool \<Rightarrow> LineData" where
  "tg_line emp fb fc =
     \<lparr>top_px = 0, left = 0, height = Calc 80 False, list_of = tg_item emp fb fc\<rparr>"

text \<open>A state and a host for a pass with the feature switched off and no editor yet.\<close>

definition stale_state :: plugin_state where
  "stale_state =
     \<lparr>lastLine = 3,
      lines = [\<lparr>top_px = 0, left = 0, height = Calc 60 True, list_of = flat_a\<rparr>],
      lineElements = [\<lparr>style_top = 0, style_left = 0, style_height = Calc 60 True,
                        style_display = DisplayBlock\<rparr>]\<rparr>"

definition disabled_env :: env where
  "disabled_env =
     \<lparr>listLines = False, isDefaultThemeEnabled = True, tabSize = 4,
      viewportLineBlocks = [\<lparr>top_blk = 0, bottom_blk = 20\<rparr>],
      visibleRanges = [\<lparr>range_from = 0, range_to = 19\<rparr>],
      viewport = \<lparr>range_from = 0, range_to = 19\<rparr>,
      lineBlockAt = doc_lineBlockAt [0, 4, 10, 16],
      editor = None,
      parseRange = (\<lambda>_ _ _. [])\<rparr>"

section \<open>Facts about one item\<close>

lemma connector_list_of:
  "connector e ed lastLn rights ups l = Inr (Some d) \<Longrightarrow> list_of d = l"
  by (auto simp: connector_def Let_def split: sum.splits prod.splits if_splits)


lemma connector_left:
  "connector e ed lastLn rights ups l = Inr (Some d) \<Longrightarrow> left d = getIndentSize e l"
  by (auto simp: connector_def Let_def split: sum.splits prod.splits if_splits)







lemma indentSpaces_units:
  "indentSpaces ts indent spaces = spaces + indentUnits ts indent"
  by (induction indent arbitrary: spaces) (simp_all add: indentUnits_def)

section \<open>Facts about the traversal\<close>








lemma recursive_origin:
  "recursive e ed lastLn rights ups l ls = Inr ls' \<Longrightarrow>
     \<exists>new. ls' = ls @ new \<and>
       (\<forall>d\<in>set new. \<exists>(r, u, i)\<in>set (item_positions rights ups l).
           connector e ed lastLn r u i = Inr (Some d))"
  "recursive_children e ed lastLn position cs ls = Inr ls' \<Longrightarrow>
     \<exists>new. ls' = ls @ new \<and>
       (\<forall>d\<in>set new. \<exists>(r, u, i)\<in>set (children_positions position cs).
           connector e ed lastLn r u i = Inr (Some d))"
proof (induction e ed lastLn rights ups l ls and e ed lastLn position cs ls
       arbitrary: ls' and ls' rule: recursive_recursive_children.induct)
  case (1 e ed lastLn rights ups start indent fld emp children ls)
  let ?l = "ListItem start indent fld emp children"
  show ?case
  proof (cases "children = []")
    case True
    with "1.prems" show ?thesis by simp
  next
    case False
    from "1.prems" False obtain ls1 where
      rc: "recursive_children e ed lastLn (rights # ups) children ls = Inr ls1"
      by (auto split: sum.splits)
    from "1.IH"[OF False rc] obtain new1 where
      n1: "ls1 = ls @ new1"
      "\<forall>d\<in>set new1. \<exists>(r, u, i)\<in>set (children_positions (rights # ups) children).
           connector e ed lastLn r u i = Inr (Some d)"
      by blast
    show ?thesis
    proof (cases "connector e ed lastLn rights ups ?l")
      case (Inl err)
      with "1.prems" False rc show ?thesis by simp
    next
      case (Inr res)
      show ?thesis
      proof (cases res)
        case None
        with "1.prems" False rc Inr have "ls' = ls1" by simp
        with n1 show ?thesis by fastforce
      next
        case (Some ld)
        with "1.prems" False rc Inr have "ls' = ls @ (new1 @ [ld])" using n1 by simp
        moreover have "\<forall>d\<in>set (new1 @ [ld]).
           \<exists>(r, u, i)\<in>set (item_positions rights ups ?l).
             connector e ed lastLn r u i = Inr (Some d)"
          using n1(2) Inr Some by fastforce
        ultimately show ?thesis by blast
      qed
    qed
  qed
next
  case (2 e ed lastLn position ls)
  then show ?case by simp
next
  case (3 e ed lastLn position child rest ls)
  show ?case
  proof (cases "isEmpty child")
    case True
    with "3.prems" have "recursive_children e ed lastLn position rest ls = Inr ls'" by simp
    from "3.IH"(3)[OF _ this] True show ?thesis by fastforce
  next
    case False
    from "3.prems" False obtain ls1 where
      r1: "recursive e ed lastLn rest position child ls = Inr ls1"
      and r2: "recursive_children e ed lastLn position rest ls1 = Inr ls'"
      by (auto split: sum.splits)
    from "3.IH"(1)[OF _ r1] False obtain new1 where
      n1: "ls1 = ls @ new1"
      "\<forall>d\<in>set new1. \<exists>(r, u, i)\<in>set (item_positions rest position child).
           connector e ed lastLn r u i = Inr (Some d)"
      by blast
    from "3.IH"(2)[OF _ r1 r2] False obtain new2 where
      n2: "ls' = ls1 @ new2"
      "\<forall>d\<in>set new2. \<exists>(r, u, i)\<in>set (children_positions position rest).
           connector e ed lastLn r u i = Inr (Some d)"
      by blast
    have "ls' = ls @ (new1 @ new2)" using n1 n2 by simp
    moreover have "\<forall>d\<in>set (new1 @ new2).
         \<exists>(r, u, i)\<in>set (children_positions position (child # rest)).
           connector e ed lastLn r u i = Inr (Some d)"
      using n1(2) n2(2) by fastforce
    ultimately show ?thesis by blast
  qed
qed

lemma calculate_children_origin:
  "calculate_children e ed lastLn cs ls = Inr ls' \<Longrightarrow>
     \<exists>new. ls' = ls @ new \<and>
       (\<forall>d\<in>set new. \<exists>(r, u, i)\<in>set (children_positions [] cs).
           connector e ed lastLn r u i = Inr (Some d))"
proof (induction cs arbitrary: ls)
  case Nil
  then show ?case by simp
next
  case (Cons c rest)
  from Cons.prems obtain ls1 where
    r1: "recursive e ed lastLn rest [] c ls = Inr ls1"
    and r2: "calculate_children e ed lastLn rest ls1 = Inr ls'"
    by (auto split: sum.splits)
  from recursive_origin(1)[OF r1] obtain new1 where
    n1: "ls1 = ls @ new1"
    "\<forall>d\<in>set new1. \<exists>(r, u, i)\<in>set (item_positions rest [] c).
         connector e ed lastLn r u i = Inr (Some d)"
    by blast
  from Cons.IH[OF r2] obtain new2 where
    n2: "ls' = ls1 @ new2"
    "\<forall>d\<in>set new2. \<exists>(r, u, i)\<in>set (children_positions [] rest).
         connector e ed lastLn r u i = Inr (Some d)"
    by blast
  have "ls' = ls @ (new1 @ new2)" using n1 n2 by simp
  moreover have "\<forall>d\<in>set (new1 @ new2).
       \<exists>(r, u, i)\<in>set (children_positions [] (c # rest)).
         connector e ed lastLn r u i = Inr (Some d)"
    using n1(2) n2(2) by fastforce
  ultimately show ?case by blast
qed

lemma calculate_lists_origin:
  "calculate_lists e ed roots st = Inr st' \<Longrightarrow>
     \<forall>d\<in>set (lines st). from_forest e ed (pre @ roots) d \<Longrightarrow>
     \<forall>d\<in>set (lines st'). from_forest e ed (pre @ roots) d"
proof (induction roots arbitrary: st pre)
  case Nil
  then show ?case by simp
next
  case (Cons rt rest)
  let ?ln = "line (snd (root_getRange rt))"
  from Cons.prems(1) obtain ls1 where
    c1: "calculate_children e ed ?ln (root_getChildren rt) (lines st) = Inr ls1"
    and c2: "calculate_lists e ed rest (st\<lparr>lastLine := ?ln, lines := ls1\<rparr>) = Inr st'"
    by (auto simp: Let_def split: sum.splits)
  from calculate_children_origin[OF c1] obtain new where
    n: "ls1 = lines st @ new"
    "\<forall>d\<in>set new. \<exists>(r, u, i)\<in>set (children_positions [] (root_getChildren rt)).
         connector e ed ?ln r u i = Inr (Some d)"
    by blast
  have "\<forall>d\<in>set new. from_forest e ed ((pre @ [rt]) @ rest) d"
    using n(2) unfolding from_forest_def by fastforce
  with Cons.prems(2) n(1)
  have "\<forall>d\<in>set (lines (st\<lparr>lastLine := ?ln, lines := ls1\<rparr>)).
          from_forest e ed ((pre @ [rt]) @ rest) d"
    by auto
  from Cons.IH[OF c2 this] show ?case by simp
qed

lemma set_insertLine: "set (insertLine a bs) = insert a (set bs)"
  by (induction bs) auto

lemma set_sortLines: "set (sortLines ls) = set ls"
  unfolding sortLines_def by (induction ls) (auto simp: set_insertLine)

lemma lines_updateDom: "lines (updateDom st) = lines st"
  by (simp add: updateDom_def)

lemma calculate_origin:
  assumes "calculate e st = Inr st'" and "d \<in> set (lines st')"
  shows "\<exists>ed. editor e = Some ed \<and> from_forest e ed (parsed e ed) d"
proof (cases "listLines e \<and> isDefaultThemeEnabled e
            \<and> length (viewportLineBlocks e) > 0 \<and> length (visibleRanges e) > 0")
  case False
  with assms(1) have "lines st' = []"
    by (auto simp: calculate_def Let_def lines_updateDom)
  with assms(2) show ?thesis by simp
next
  case True
  with assms(1) obtain ed st1 where
    ed: "editor e = Some ed"
    and cl: "calculate_lists e ed (parsed e ed) (st\<lparr>lines := []\<rparr>) = Inr st1"
    and st': "st' = updateDom (st1\<lparr>lines := sortLines (lines st1)\<rparr>)"
    by (auto simp: calculate_def parsed_def Let_def split: option.splits sum.splits)
  from calculate_lists_origin[OF cl, of "[]"]
  have "\<forall>d\<in>set (lines st1). from_forest e ed (parsed e ed) d"
    by simp
  moreover from assms(2) st' have "d \<in> set (lines st1)"
    by (simp add: lines_updateDom set_sortLines)
  ultimately show ?thesis using ed by blast
qed


section \<open>Facts about the order of the lines\<close>

lemma compareLines_le: "compareLines a b \<le> 0 \<longleftrightarrow> lineLe a b"
  by (auto simp: compareLines_def lineLe_def)

lemma lineLe_total: "\<not> lineLe a b \<Longrightarrow> lineLe b a"
  by (auto simp: lineLe_def)

lemma lineLe_trans: "lineLe a b \<Longrightarrow> lineLe b c \<Longrightarrow> lineLe a c"
  by (auto simp: lineLe_def)

lemma sorted_insertLine:
  "sorted_wrt lineLe bs \<Longrightarrow> sorted_wrt lineLe (insertLine a bs)"
proof (induction bs)
  case Nil
  then show ?case by simp
next
  case (Cons b bs)
  show ?case
  proof (cases "compareLines a b \<le> 0")
    case True
    then have ab: "lineLe a b" by (simp add: compareLines_le)
    have "\<forall>x\<in>set bs. lineLe a x" using Cons.prems ab lineLe_trans by auto
    with True ab Cons.prems show ?thesis by simp
  next
    case False
    then have "lineLe b a" using lineLe_total by (simp add: compareLines_le)
    with False Cons show ?thesis by (auto simp: set_insertLine)
  qed
qed

lemma sorted_sortLines: "sorted_wrt lineLe (sortLines ls)"
  unfolding sortLines_def by (induction ls) (auto simp: sorted_insertLine)

section \<open>The example passes\<close>

lemmas doc_simps = doc_editor_def doc_posToOffset_def doc_lineBlockAt_def

lemmas pass_simps = calculate_def connector_def visibleBounds_def fromOffset_def
  tillOffset_def getIndentSize_def spaceSize_def sortLines_def compareLines_def
  updateDom_def shown_def hidden_def Let_def


lemmas nested_simps = nested_env_def st0_def nested_a_def nested_b_def nested_c_def
  nested_d_def



lemma nested_pass:
  "calculate (nested_env False (doc_lineBlockAt [0, 4, 9, 15])) st0 =
     Inr (rendered
       [\<lparr>top_px = 0, left = 0, height = Calc 60 True, list_of = nested_a False\<rparr>,
        \<lparr>top_px = 20, left = 18, height = Calc 40 False, list_of = nested_b\<rparr>])"
  by (simp add: pass_simps doc_simps nested_simps rendered_def)


lemma lines_rendered: "lines (rendered ls) = ls"
  by (simp add: rendered_def)



section \<open>The claims about the geometry engine\<close>












text \<open>
  C7. When the feature is disabled, or the theme is not the default theme, or there are
  no viewport line blocks or no visible ranges, \<open>calculate\<close> returns normally (also with
  no editor attached), with no lines and with every line element hidden.
\<close>

theorem calculate_no_op_clears:
  assumes "\<not> listLines e \<or> \<not> isDefaultThemeEnabled e
           \<or> viewportLineBlocks e = [] \<or> visibleRanges e = []"
  shows "calculate e st =
           Inr (st\<lparr>lines := [], lineElements := map (\<lambda>_. hidden) (lineElements st)\<rparr>)"
  using assms by (auto simp: calculate_def updateDom_def Let_def)

theorem calculate_no_op_clears_witness:
  "\<not> listLines disabled_env \<and> editor disabled_env = None
   \<and> calculate disabled_env stale_state =
       Inr \<lparr>lastLine = 3, lines = [],
            lineElements = [\<lparr>style_top = 0, style_left = 0, style_height = ZeroPx,
                              style_display = DisplayNone\<rparr>]\<rparr>"
proof -
  have "\<not> listLines disabled_env" by (simp add: disabled_env_def)
  then have "\<not> listLines disabled_env \<or> \<not> isDefaultThemeEnabled disabled_env
           \<or> viewportLineBlocks disabled_env = [] \<or> visibleRanges disabled_env = []"
    by simp
  from calculate_no_op_clears[OF this, of stale_state]
  show ?thesis by (simp add: disabled_env_def stale_state_def hidden_def)
qed

text \<open>
  C8. The lines that \<open>calculate\<close> leaves are sorted by \<open>top\<close> ascending, and lines with
  the same \<open>top\<close> by \<open>left\<close> ascending.
\<close>

theorem calculate_lines_sorted:
  assumes "calculate e st = Inr st'"
  shows "sorted_wrt (\<lambda>a b. top_px a < top_px b \<or> (top_px a = top_px b \<and> left a \<le> left b))
           (lines st')"
proof (cases "listLines e \<and> isDefaultThemeEnabled e
            \<and> length (viewportLineBlocks e) > 0 \<and> length (visibleRanges e) > 0")
  case False
  with assms have "lines st' = []"
    by (auto simp: calculate_def Let_def lines_updateDom)
  then show ?thesis by simp
next
  case True
  with assms obtain st1 where "st' = updateDom (st1\<lparr>lines := sortLines (lines st1)\<rparr>)"
    by (auto simp: calculate_def Let_def split: option.splits sum.splits)
  then have "lines st' = sortLines (lines st1)" by (simp add: lines_updateDom)
  moreover have "sorted_wrt lineLe (sortLines (lines st1))" by (rule sorted_sortLines)
  ultimately show ?thesis by (simp add: lineLe_def[abs_def])
qed

theorem calculate_lines_sorted_witness:
  "calculate (nested_env False (doc_lineBlockAt [0, 4, 9, 15])) st0 =
     Inr (rendered
       [\<lparr>top_px = 0, left = 0, height = Calc 60 True, list_of = nested_a False\<rparr>,
        \<lparr>top_px = 20, left = 18, height = Calc 40 False, list_of = nested_b\<rparr>])
   \<and> sorted_wrt (\<lambda>a b. top_px a < top_px b \<or> (top_px a = top_px b \<and> left a \<le> left b))
       (lines (rendered
         [\<lparr>top_px = 0, left = 0, height = Calc 60 True, list_of = nested_a False\<rparr>,
          \<lparr>top_px = 20, left = 18, height = Calc 40 False, list_of = nested_b\<rparr>]))
   \<and> recursive (nested_env False (doc_lineBlockAt [0, 4, 9, 15]))
         (doc_editor [0, 4, 9, 15] None) 3 [nested_d] [] (nested_a False) [] =
       Inr [\<lparr>top_px = 20, left = 18, height = Calc 40 False, list_of = nested_b\<rparr>,
            \<lparr>top_px = 0, left = 0, height = Calc 60 True, list_of = nested_a False\<rparr>]"
proof -
  have "recursive (nested_env False (doc_lineBlockAt [0, 4, 9, 15]))
         (doc_editor [0, 4, 9, 15] None) 3 [nested_d] [] (nested_a False) [] =
       Inr [\<lparr>top_px = 20, left = 18, height = Calc 40 False, list_of = nested_b\<rparr>,
            \<lparr>top_px = 0, left = 0, height = Calc 60 True, list_of = nested_a False\<rparr>]"
    by (simp add: pass_simps doc_simps nested_simps)
  with calculate_lines_sorted[OF nested_pass] nested_pass show ?thesis by blast
qed

text \<open>
  C9. The indent of an item is the number of character units of its first-line indent
  (the tab width for a tab, one for any other character) times 4.5 pixels, and it is the
  \<open>left\<close> of every line of the item; with a tab width of 4, an indent of one tab is 4
  units, that is 4 times 4.5 pixels.
\<close>

theorem indent_is_units_times_width:
  "getIndentSize e l = real (indentUnits (tabSize e) (getFirstLineIndent l)) * 4.5
   \<and> (calculate e st = Inr st' \<longrightarrow>
        (\<forall>d\<in>set (lines st').
           left d = real (indentUnits (tabSize e) (getFirstLineIndent (list_of d))) * 4.5))
   \<and> (tabSize e = 4 \<and> getFirstLineIndent l = [CHR 0x09] \<longrightarrow>
        indentUnits (tabSize e) (getFirstLineIndent l) = 4 \<and> getIndentSize e l = 4 * 4.5)"
proof -
  have size: "getIndentSize e i = real (indentUnits (tabSize e) (getFirstLineIndent i)) * 4.5"
    for i
    by (simp add: getIndentSize_def spaceSize_def indentSpaces_units)
  have "left d = real (indentUnits (tabSize e) (getFirstLineIndent (list_of d))) * 4.5"
    if c: "calculate e st = Inr st'" and d: "d \<in> set (lines st')" for d
  proof -
    from calculate_origin[OF c d] obtain ed where
      "from_forest e ed (parsed e ed) d" by blast
    then obtain lastLn rights ups i where
      k: "connector e ed lastLn rights ups i = Inr (Some d)"
      unfolding from_forest_def by blast
    from connector_left[OF k] connector_list_of[OF k] size[of i] show ?thesis by simp
  qed
  moreover have "indentUnits (tabSize e) (getFirstLineIndent l) = 4 \<and> getIndentSize e l = 4 * 4.5"
    if "tabSize e = 4 \<and> getFirstLineIndent l = [CHR 0x09]"
    using that size[of l] by (simp add: indentUnits_def)
  ultimately show ?thesis using size[of l] by blast
qed

theorem indent_is_units_times_width_witness:
  "calculate (nested_env False (doc_lineBlockAt [0, 4, 9, 15])) st0 =
     Inr (rendered
       [\<lparr>top_px = 0, left = 0, height = Calc 60 True, list_of = nested_a False\<rparr>,
        \<lparr>top_px = 20, left = 18, height = Calc 40 False, list_of = nested_b\<rparr>])
   \<and> tabSize (nested_env False (doc_lineBlockAt [0, 4, 9, 15])) = 4
   \<and> getFirstLineIndent nested_b = [CHR 0x09]
   \<and> indentUnits (tabSize (nested_env False (doc_lineBlockAt [0, 4, 9, 15])))
        (getFirstLineIndent nested_b) = 4
   \<and> getIndentSize (nested_env False (doc_lineBlockAt [0, 4, 9, 15])) nested_b = 18
   \<and> left \<lparr>top_px = 20, left = 18, height = Calc 40 False, list_of = nested_b\<rparr>
       = real (indentUnits (tabSize (nested_env False (doc_lineBlockAt [0, 4, 9, 15])))
                 (getFirstLineIndent nested_b)) * 4.5"
proof -
  let ?e = "nested_env False (doc_lineBlockAt [0, 4, 9, 15])"
  have t: "tabSize ?e = 4 \<and> getFirstLineIndent nested_b = [CHR 0x09]"
    by (simp add: nested_env_def nested_b_def)
  from indent_is_units_times_width[of ?e nested_b st0 "rendered
       [\<lparr>top_px = 0, left = 0, height = Calc 60 True, list_of = nested_a False\<rparr>,
        \<lparr>top_px = 20, left = 18, height = Calc 40 False, list_of = nested_b\<rparr>]"]
    nested_pass t
  show ?thesis by (simp add: lines_rendered)
qed

section \<open>Facts about toggle-folding\<close>

lemma collectToggle_closed:
  "collectToggle cs needToUnfold linesToToggle =
     (needToUnfold \<and> (\<forall>c\<in>set cs. \<not> isEmpty c \<longrightarrow> isFolded c),
      linesToToggle @ map lineOf (filter (\<lambda>c. \<not> isEmpty c) cs))"
  by (induction cs arbitrary: needToUnfold linesToToggle) (auto simp: lineOf_def)

lemma applyToggle_closed:
  "applyToggle needToUnfold ls fs = (if needToUnfold then fs - set ls else fs \<union> set ls)"
  by (induction ls arbitrary: fs) (auto simp: fold_line_def unfold_line_def)

lemma toggleFolding_closed:
  "toggleFolding ld fs =
     (if isEmpty (list_of ld) then fs
      else if \<forall>c\<in>set (nonEmptyChildren (list_of ld)). isFolded c
           then fs - lineOf ` set (nonEmptyChildren (list_of ld))
           else fs \<union> lineOf ` set (nonEmptyChildren (list_of ld)))"
  by (auto simp: toggleFolding_def Let_def collectToggle_closed applyToggle_closed
      nonEmptyChildren_def)

lemma reparse_fields:
  "isEmpty (reparse fs c) = isEmpty c"
  "lineOf (reparse fs c) = lineOf c"
  "isFolded (reparse fs c) = (lineOf c \<in> fs)"
  "getChildren (reparse fs c) = map (reparse fs) (getChildren c)"
  by (cases c; simp add: lineOf_def)+

lemma nonEmptyChildren_reparse:
  "nonEmptyChildren (reparse fs l) = map (reparse fs) (nonEmptyChildren l)"
  by (simp add: nonEmptyChildren_def reparse_fields filter_map comp_def)

lemma toggleFolding_reparse:
  "toggleFolding (ld\<lparr>list_of := reparse fs1 (list_of ld)\<rparr>) fs1 =
     (if isEmpty (list_of ld) then fs1
      else if lineOf ` set (nonEmptyChildren (list_of ld)) \<subseteq> fs1
           then fs1 - lineOf ` set (nonEmptyChildren (list_of ld))
           else fs1 \<union> lineOf ` set (nonEmptyChildren (list_of ld)))"
proof -
  let ?l = "list_of ld"
  have img: "lineOf ` set (nonEmptyChildren (reparse fs1 ?l)) =
               lineOf ` set (nonEmptyChildren ?l)"
    by (simp add: nonEmptyChildren_reparse image_image reparse_fields)
  have all: "(\<forall>c\<in>set (nonEmptyChildren (reparse fs1 ?l)). isFolded c)
               \<longleftrightarrow> lineOf ` set (nonEmptyChildren ?l) \<subseteq> fs1"
    by (auto simp: nonEmptyChildren_reparse reparse_fields)
  have sel: "list_of (ld\<lparr>list_of := reparse fs1 ?l\<rparr>) = reparse fs1 ?l" by simp
  show ?thesis
    unfolding toggleFolding_closed sel by (simp only: reparse_fields img all)
qed

lemma toggle_sets:
  fixes L fs :: "int set"
  shows "L \<subseteq> fs - L \<longleftrightarrow> L = {}" and "L \<subseteq> fs \<union> L"
    and "fs - L \<union> L = fs \<union> L" and "fs \<union> L - L = fs - L"
  by auto

lemma toggleTwice_closed:
  "toggleTwice ld fs =
     (if isEmpty (list_of ld) then fs
      else if \<forall>c\<in>set (nonEmptyChildren (list_of ld)). isFolded c
           then (if nonEmptyChildren (list_of ld) = []
                 then fs
                 else fs \<union> lineOf ` set (nonEmptyChildren (list_of ld)))
           else fs - lineOf ` set (nonEmptyChildren (list_of ld)))"
proof (cases "isEmpty (list_of ld)")
  case True
  then have "toggleFolding ld fs = fs" by (simp add: toggleFolding_closed)
  with True show ?thesis
    by (simp add: toggleTwice_def Let_def toggleFolding_reparse)
next
  case False
  show ?thesis
  proof (cases "\<forall>c\<in>set (nonEmptyChildren (list_of ld)). isFolded c")
    case True
    with False have "toggleFolding ld fs = fs - lineOf ` set (nonEmptyChildren (list_of ld))"
      by (auto simp: toggleFolding_closed)
    with True False show ?thesis
      by (auto simp: toggleTwice_def Let_def toggleFolding_reparse toggle_sets)
  next
    case notall: False
    with False have "toggleFolding ld fs = fs \<union> lineOf ` set (nonEmptyChildren (list_of ld))"
      by (auto simp: toggleFolding_closed)
    with notall False show ?thesis
      by (auto simp: toggleTwice_def Let_def toggleFolding_reparse toggle_sets)
  qed
qed

lemmas tg_simps = tg_line_def tg_item_def tg_child_def nonEmptyChildren_def lineOf_def

section \<open>The claims about the interaction handler\<close>

text \<open>
  C3, as amended. For an item that is not empty itself, whose children start on different
  lines: if all its direct non-empty children are folded, each of them is unfolded
  afterwards, otherwise each of them is folded afterwards; the fold state of an empty
  child is left as it was; and with no non-empty children the fold state is unchanged.
\<close>

theorem toggleFolding_all_or_nothing:
  assumes "\<not> isEmpty (list_of ld)"
    and "distinct (map lineOf (getChildren (list_of ld)))"
  shows "(if \<forall>c\<in>set (nonEmptyChildren (list_of ld)). isFolded c
          then \<forall>c\<in>set (nonEmptyChildren (list_of ld)). lineOf c \<notin> toggleFolding ld fs
          else \<forall>c\<in>set (nonEmptyChildren (list_of ld)). lineOf c \<in> toggleFolding ld fs)
         \<and> (\<forall>c\<in>set (getChildren (list_of ld)).
               isEmpty c \<longrightarrow> (lineOf c \<in> toggleFolding ld fs \<longleftrightarrow> lineOf c \<in> fs))
         \<and> (nonEmptyChildren (list_of ld) = [] \<longrightarrow> toggleFolding ld fs = fs)"
proof -
  let ?L = "lineOf ` set (nonEmptyChildren (list_of ld))"
  have apart: "lineOf c \<notin> ?L" if "c \<in> set (getChildren (list_of ld))" "isEmpty c" for c
  proof
    assume "lineOf c \<in> ?L"
    then obtain c' where c': "c' \<in> set (getChildren (list_of ld))" "\<not> isEmpty c'"
      "lineOf c' = lineOf c"
      by (auto simp: nonEmptyChildren_def)
    from assms(2) have "inj_on lineOf (set (getChildren (list_of ld)))"
      by (simp add: distinct_map)
    with that(1) c'(1,3) have "c' = c" by (auto dest: inj_onD)
    with that(2) c'(2) show False by simp
  qed
  show ?thesis
    using assms(1) apart by (auto simp: toggleFolding_closed)
qed

theorem toggleFolding_all_or_nothing_witness:
  "\<not> isEmpty (list_of (tg_line False False False))
   \<and> distinct (map lineOf (getChildren (list_of (tg_line False False False))))
   \<and> nonEmptyChildren (list_of (tg_line False False False)) =
       [tg_child 1 False False, tg_child 2 False False]
   \<and> lineOf (tg_child 1 False False) \<in> toggleFolding (tg_line False False False) {}
   \<and> lineOf (tg_child 2 False False) \<in> toggleFolding (tg_line False False False) {}
   \<and> lineOf (tg_child 3 False True) \<notin> toggleFolding (tg_line False False False) {}"
proof -
  have a: "\<not> isEmpty (list_of (tg_line False False False))"
    by (simp add: tg_simps)
  have d: "distinct (map lineOf (getChildren (list_of (tg_line False False False))))"
    by (simp add: tg_simps)
  from toggleFolding_all_or_nothing[OF a d, of "{}"] a d
  show ?thesis by (simp add: tg_simps)
qed

text \<open>
  C3 as stated fails for an item that is empty itself: its two children with text are
  not folded, and after the click neither is folded.
\<close>

theorem toggleFolding_skips_empty_item:
  "nonEmptyChildren (list_of (tg_line True False False)) =
     [tg_child 1 False False, tg_child 2 False False]
   \<and> \<not> isFolded (tg_child 1 False False)
   \<and> lineOf (tg_child 1 False False) \<notin> toggleFolding (tg_line True False False) {}
   \<and> lineOf (tg_child 2 False False) \<notin> toggleFolding (tg_line True False False) {}"
  by (simp add: tg_simps toggleFolding_def)

text \<open>
  C4, as amended. Let the fold flags of the direct non-empty children of an item agree
  with the fold state of the editor. If these children are all folded or all unfolded,
  two clicks in a row restore the fold state. If some are folded and some are not, and
  the item is not empty itself, two clicks leave all of them unfolded.
\<close>

theorem toggleTwice_restores_uniform:
  assumes "\<forall>c\<in>set (nonEmptyChildren (list_of ld)). isFolded c \<longleftrightarrow> lineOf c \<in> fs"
  shows "((\<forall>c\<in>set (nonEmptyChildren (list_of ld)). isFolded c)
          \<or> (\<forall>c\<in>set (nonEmptyChildren (list_of ld)). \<not> isFolded c)
          \<longrightarrow> toggleTwice ld fs = fs)
         \<and> (\<not> isEmpty (list_of ld)
            \<and> (\<exists>c\<in>set (nonEmptyChildren (list_of ld)). isFolded c)
            \<and> (\<exists>c\<in>set (nonEmptyChildren (list_of ld)). \<not> isFolded c)
            \<longrightarrow> (\<forall>c\<in>set (nonEmptyChildren (list_of ld)). lineOf c \<notin> toggleTwice ld fs))"
proof -
  let ?NE = "nonEmptyChildren (list_of ld)"
  have "toggleTwice ld fs = fs" if "\<forall>c\<in>set ?NE. isFolded c"
  proof -
    from that assms have "lineOf ` set ?NE \<subseteq> fs" by auto
    with that show ?thesis by (auto simp: toggleTwice_closed)
  qed
  moreover have "toggleTwice ld fs = fs" if "\<forall>c\<in>set ?NE. \<not> isFolded c"
  proof -
    from that assms have "lineOf ` set ?NE \<inter> fs = {}" by auto
    with that show ?thesis by (auto simp: toggleTwice_closed)
  qed
  moreover have "\<forall>c\<in>set ?NE. lineOf c \<notin> toggleTwice ld fs"
    if "\<not> isEmpty (list_of ld)" "\<exists>c\<in>set ?NE. \<not> isFolded c"
    using that by (auto simp: toggleTwice_closed)
  ultimately show ?thesis by blast
qed

theorem toggleTwice_restores_uniform_witness:
  "nonEmptyChildren (list_of (tg_line False False False)) =
     [tg_child 1 False False, tg_child 2 False False]
   \<and> isFolded (tg_child 1 False False) = (lineOf (tg_child 1 False False) \<in> {})
   \<and> isFolded (tg_child 2 False False) = (lineOf (tg_child 2 False False) \<in> {})
   \<and> \<not> isFolded (tg_child 1 False False) \<and> \<not> isFolded (tg_child 2 False False)
   \<and> toggleFolding (tg_line False False False) {} = {1, 2}
   \<and> toggleTwice (tg_line False False False) {} = {}"
proof -
  have s: "\<forall>c\<in>set (nonEmptyChildren (list_of (tg_line False False False))).
             isFolded c \<longleftrightarrow> lineOf c \<in> {}"
    by (simp add: tg_simps)
  have u: "\<forall>c\<in>set (nonEmptyChildren (list_of (tg_line False False False))). \<not> isFolded c"
    by (simp add: tg_simps)
  have t: "toggleFolding (tg_line False False False) {} = {1, 2}"
    by (auto simp: toggleFolding_def Let_def fold_line_def unfold_line_def tg_simps)
  from toggleTwice_restores_uniform[OF s] u have "toggleTwice (tg_line False False False) {} = {}"
    by blast
  with t show ?thesis by (simp add: tg_simps)
qed

text \<open>
  C4 as stated fails from a mixed assignment: with the child on line 1 folded and the
  child on line 2 not, the first click folds both and the second unfolds both, so the
  child on line 1 does not return to its fold state.
\<close>

theorem toggleTwice_mixed_not_restored:
  "isFolded (tg_child 1 True False) \<and> \<not> isFolded (tg_child 2 False False)
   \<and> nonEmptyChildren (list_of (tg_line False True False)) =
       [tg_child 1 True False, tg_child 2 False False]
   \<and> lineOf (tg_child 1 True False) \<in> {1}
   \<and> toggleFolding (tg_line False True False) {1} = {1, 2}
   \<and> reparse {1, 2} (list_of (tg_line False True False)) = tg_item False True True
   \<and> toggleTwice (tg_line False True False) {1} = {}
   \<and> lineOf (tg_child 1 True False) \<notin> toggleTwice (tg_line False True False) {1}"
  by (auto simp: toggleTwice_def toggleFolding_def Let_def fold_line_def unfold_line_def
      tg_simps)

text \<open>
  C10. When the item that the click resolves to is empty itself, \<open>toggleFolding\<close> leaves
  the fold state as it is, whatever its children are.
\<close>

theorem toggleFolding_empty_item_unchanged:
  assumes "isEmpty (list_of ld)"
  shows "toggleFolding ld fs = fs"
  using assms by (simp add: toggleFolding_def)

theorem toggleFolding_empty_item_unchanged_witness:
  "isEmpty (list_of (tg_line True True False))
   \<and> nonEmptyChildren (list_of (tg_line True True False)) =
       [tg_child 1 True False, tg_child 2 False False]
   \<and> toggleFolding (tg_line True True False) {1} = {1}"
proof -
  have e: "isEmpty (list_of (tg_line True True False))" by (simp add: tg_simps)
  from toggleFolding_empty_item_unchanged[OF e, of "{1}"] e
  show ?thesis by (simp add: tg_simps)
qed

end
